theory Spec2Isabelle
  imports Main "HOL-Library.Word"
begin

section \<open>Python values and errors\<close>

text \<open>
  The buffer of \<^verbatim>\<open>btrfs.py\<close> is an \<^verbatim>\<open>array.array("B")\<close>: a list of bytes. Python integers
  are unbounded, so they are \<^typ>\<open>int\<close>. The exceptions that \<^verbatim>\<open>search\<close> can let escape are
  values of \<open>py_error\<close>: \<^verbatim>\<open>struct.error\<close>, \<^verbatim>\<open>ValueError\<close> (unpacking a sequence that
  has not exactly two elements), \<^verbatim>\<open>IndexError\<close> and \<^verbatim>\<open>TypeError\<close> (indexing a tuple),
  and the \<^verbatim>\<open>OSError\<close> of the ioctl with its errno.
\<close>

type_synonym byte = "8 word"

datatype py_error = StructError | ValueError | IndexError | TypeError | OSError nat

datatype pyval = PInt int | PBytes "byte list"

datatype byteorder = LittleEndian | BigEndian

definition ULLONG_MAX :: int where
  "ULLONG_MAX = 2 ^ 64 - 1"

definition ULONG_MAX :: int where
  "ULONG_MAX = 2 ^ 32 - 1"

definition IOC_TREE_SEARCH :: nat where
  "IOC_TREE_SEARCH = 0xd0009411"

section \<open>The struct module\<close>

text \<open>
  A \<^verbatim>\<open>struct.Struct\<close> in standard mode (\<^verbatim>\<open>=\<close>, \<^verbatim>\<open><\<close>): a byte order and the format codes,
  each repeat count written out, with no alignment padding. \<^verbatim>\<open>x\<close> is a pad byte,
  \<^verbatim>\<open>B H L Q\<close> are unsigned integers of 1, 2, 4 and 8 bytes, \<^verbatim>\<open>q\<close> is a signed integer of
  8 bytes and \<^verbatim>\<open>ns\<close> is a byte string of n bytes.
\<close>

datatype fcode = Pad | UChar | UShort | ULong | ULongLong | SLongLong | Chars nat

record struct =
  order :: byteorder
  codes :: "fcode list"

fun code_size :: "fcode \<Rightarrow> nat" where
  "code_size Pad = 1"
| "code_size UChar = 1"
| "code_size UShort = 2"
| "code_size ULong = 4"
| "code_size ULongLong = 8"
| "code_size SLongLong = 8"
| "code_size (Chars n) = n"

definition struct_size :: "struct \<Rightarrow> nat" where
  "struct_size s = sum_list (map code_size (codes s))"

fun le_bytes :: "nat \<Rightarrow> int \<Rightarrow> byte list" where
  "le_bytes 0 v = []"
| "le_bytes (Suc n) v = word_of_int v # le_bytes n (v div 256)"

fun le_int :: "byte list \<Rightarrow> int" where
  "le_int [] = 0"
| "le_int (b # bs) = uint b + 256 * le_int bs"

definition int_bytes :: "byteorder \<Rightarrow> nat \<Rightarrow> int \<Rightarrow> byte list" where
  "int_bytes bo n v = (case bo of LittleEndian \<Rightarrow> le_bytes n v | BigEndian \<Rightarrow> rev (le_bytes n v))"

definition bytes_int :: "byteorder \<Rightarrow> byte list \<Rightarrow> int" where
  "bytes_int bo bs = (case bo of LittleEndian \<Rightarrow> le_int bs | BigEndian \<Rightarrow> le_int (rev bs))"

text \<open>Packing one value: a value outside the range of its code is a \<^verbatim>\<open>struct.error\<close>.\<close>

fun pack_field :: "byteorder \<Rightarrow> fcode \<Rightarrow> pyval \<Rightarrow> py_error + byte list" where
  "pack_field bo Pad v = Inl StructError"
| "pack_field bo (Chars n) (PBytes bs) = Inr (take n bs @ replicate (n - length bs) 0)"
| "pack_field bo (Chars n) (PInt v) = Inl StructError"
| "pack_field bo c (PBytes bs) = Inl StructError"
| "pack_field bo SLongLong (PInt v) =
     (if - (2 ^ 63) \<le> v \<and> v < 2 ^ 63 then Inr (int_bytes bo 8 v) else Inl StructError)"
| "pack_field bo c (PInt v) =
     (if 0 \<le> v \<and> v < 2 ^ (8 * code_size c) then Inr (int_bytes bo (code_size c) v)
      else Inl StructError)"

text \<open>
  Packing all values: pad bytes take no value and are written as zero; too few or too
  many values are a \<^verbatim>\<open>struct.error\<close>.
\<close>

fun pack_fields :: "byteorder \<Rightarrow> fcode list \<Rightarrow> pyval list \<Rightarrow> py_error + byte list" where
  "pack_fields bo [] vs = (if vs = [] then Inr [] else Inl StructError)"
| "pack_fields bo (c # cs) vs =
     (if c = Pad then
        (case pack_fields bo cs vs of Inl e \<Rightarrow> Inl e | Inr bs \<Rightarrow> Inr (0 # bs))
      else
        (case vs of
           [] \<Rightarrow> Inl StructError
         | v # vs' \<Rightarrow>
             (case pack_field bo c v of
                Inl e \<Rightarrow> Inl e
              | Inr b \<Rightarrow>
                  (case pack_fields bo cs vs' of Inl e \<Rightarrow> Inl e | Inr bs \<Rightarrow> Inr (b @ bs)))))"

text \<open>
  \<^verbatim>\<open>Struct.pack_into(buf, offset, *values)\<close>: a buffer with fewer than \<^verbatim>\<open>size\<close> bytes from
  \<^verbatim>\<open>offset\<close> on is a \<^verbatim>\<open>struct.error\<close>; otherwise exactly \<^verbatim>\<open>size\<close> bytes are overwritten and
  the rest of the buffer is kept.
\<close>

definition pack_into :: "struct \<Rightarrow> byte list \<Rightarrow> nat \<Rightarrow> pyval list \<Rightarrow> py_error + byte list" where
  "pack_into s buf offset vs =
     (if length buf < offset + struct_size s then Inl StructError
      else
        (case pack_fields (order s) (codes s) vs of
           Inl e \<Rightarrow> Inl e
         | Inr bs \<Rightarrow> Inr (take offset buf @ bs @ drop (offset + struct_size s) buf)))"

fun unpack_field :: "byteorder \<Rightarrow> fcode \<Rightarrow> byte list \<Rightarrow> pyval" where
  "unpack_field bo (Chars n) bs = PBytes bs"
| "unpack_field bo SLongLong bs =
     PInt (if bytes_int bo bs < 2 ^ 63 then bytes_int bo bs else bytes_int bo bs - 2 ^ 64)"
| "unpack_field bo c bs = PInt (bytes_int bo bs)"

fun unpack_fields :: "byteorder \<Rightarrow> fcode list \<Rightarrow> byte list \<Rightarrow> pyval list" where
  "unpack_fields bo [] bs = []"
| "unpack_fields bo (c # cs) bs =
     (if c = Pad then unpack_fields bo cs (drop 1 bs)
      else unpack_field bo c (take (code_size c) bs) #
           unpack_fields bo cs (drop (code_size c) bs))"

text \<open>Python's \<^verbatim>\<open>buf[a:b]\<close> for \<open>0 \<le> a \<le> b\<close>: the slice stops at the end of the buffer.\<close>

definition slice :: "'a list \<Rightarrow> nat \<Rightarrow> nat \<Rightarrow> 'a list" where
  "slice xs a b = take (b - a) (drop a xs)"

text \<open>
  \<^verbatim>\<open>Struct.unpack_from(buf, offset)\<close>: a \<^verbatim>\<open>struct.error\<close> unless \<^verbatim>\<open>size\<close> bytes are there from
  \<^verbatim>\<open>offset\<close> on; only those bytes are read.
\<close>

definition unpack_from :: "struct \<Rightarrow> byte list \<Rightarrow> nat \<Rightarrow> py_error + pyval list" where
  "unpack_from s buf offset =
     (if length buf < offset + struct_size s then Inl StructError
      else Inr (unpack_fields (order s) (codes s) (slice buf offset (offset + struct_size s))))"

text \<open>\<^verbatim>\<open>t[i]\<close> on a tuple, where the code goes on to use the item as a number.\<close>

definition int_item :: "pyval list \<Rightarrow> nat \<Rightarrow> py_error + int" where
  "int_item t i =
     (if length t \<le> i then Inl IndexError
      else (case t ! i of PInt v \<Rightarrow> Inr v | PBytes bs \<Rightarrow> Inl TypeError))"

section \<open>The ioctl structures\<close>

text \<open>
  \<^verbatim>\<open>ioctl_search_key = struct.Struct("=Q6QLLL4x32x")\<close> and
  \<^verbatim>\<open>ioctl_search_header = struct.Struct("=3Q2L")\<close>. The byte order \<^verbatim>\<open>=\<close> is the host's:
  a parameter.
\<close>

definition ioctl_search_key :: "byteorder \<Rightarrow> struct" where
  "ioctl_search_key native =
     \<lparr>order = native,
      codes = ULongLong # replicate 6 ULongLong @ [ULong, ULong, ULong] @
              replicate 4 Pad @ replicate 32 Pad\<rparr>"

definition ioctl_search_header :: "byteorder \<Rightarrow> struct" where
  "ioctl_search_header native =
     \<lparr>order = native, codes = replicate 3 ULongLong @ replicate 2 ULong\<rparr>"

definition sized_array :: "nat \<Rightarrow> byte list" where
  "sized_array count = replicate count 0"

section \<open>search\<close>

text \<open>
  A range argument of \<^verbatim>\<open>search\<close> is a number or a sequence of numbers.
  \<^verbatim>\<open>lo, hi = arg\<close> raises \<^verbatim>\<open>TypeError\<close> on a number, which \<^verbatim>\<open>search\<close> catches to use the
  number for both bounds, and \<^verbatim>\<open>ValueError\<close> on a sequence that has not two elements,
  which nothing catches.
\<close>

datatype range_arg = Scalar int | Seq "int list"

fun unpack_pair :: "range_arg \<Rightarrow> py_error + int \<times> int" where
  "unpack_pair (Scalar v) = Inr (v, v)"
| "unpack_pair (Seq [lo, hi]) = Inr (lo, hi)"
| "unpack_pair (Seq vs) = Inl ValueError"

text \<open>
  The arguments of one call. \<open>None\<close> is an argument the caller leaves out (for
  \<open>structure\<close> and \<open>buf\<close>, Python's \<^verbatim>\<open>None\<close>, which is their default).
\<close>

record search_args =
  tree :: int
  objid :: "range_arg option"
  key_type :: "range_arg option"
  offset :: "range_arg option"
  transid :: "range_arg option"
  number :: "int option"
  "structure" :: "struct option"
  buf :: "byte list option"

definition arg_objid :: "search_args \<Rightarrow> range_arg" where
  "arg_objid a = (case objid a of None \<Rightarrow> Seq [0, ULLONG_MAX] | Some r \<Rightarrow> r)"

definition arg_key_type :: "search_args \<Rightarrow> range_arg" where
  "arg_key_type a = (case key_type a of None \<Rightarrow> Seq [0, ULONG_MAX] | Some r \<Rightarrow> r)"

definition arg_offset :: "search_args \<Rightarrow> range_arg" where
  "arg_offset a = (case offset a of None \<Rightarrow> Seq [0, ULLONG_MAX] | Some r \<Rightarrow> r)"

definition arg_transid :: "search_args \<Rightarrow> range_arg" where
  "arg_transid a = (case transid a of None \<Rightarrow> Seq [0, ULLONG_MAX] | Some r \<Rightarrow> r)"

definition arg_number :: "search_args \<Rightarrow> int" where
  "arg_number a = (case number a of None \<Rightarrow> ULONG_MAX | Some n \<Rightarrow> n)"

definition arg_buf :: "search_args \<Rightarrow> byte list" where
  "arg_buf a = (case buf a of None \<Rightarrow> sized_array 4096 | Some b \<Rightarrow> b)"

text \<open>
  Lines 183 to 210 of \<^verbatim>\<open>search\<close>: the four range arguments are taken apart in the
  order object id, type, offset, transaction id, and the key is packed at offset 0 of
  the buffer in the order tree, object id, offset, transaction id, type, number.
\<close>

definition encode_request :: "byteorder \<Rightarrow> search_args \<Rightarrow> py_error + byte list" where
  "encode_request native a =
     (case unpack_pair (arg_objid a) of
        Inl e \<Rightarrow> Inl e
      | Inr (min_objid, max_objid) \<Rightarrow>
     (case unpack_pair (arg_key_type a) of
        Inl e \<Rightarrow> Inl e
      | Inr (min_type, max_type) \<Rightarrow>
     (case unpack_pair (arg_offset a) of
        Inl e \<Rightarrow> Inl e
      | Inr (min_offset, max_offset) \<Rightarrow>
     (case unpack_pair (arg_transid a) of
        Inl e \<Rightarrow> Inl e
      | Inr (min_transid, max_transid) \<Rightarrow>
          pack_into (ioctl_search_key native) (arg_buf a) 0
            (map PInt [tree a,
                       min_objid, max_objid,
                       min_offset, max_offset,
                       min_transid, max_transid,
                       min_type, max_type,
                       arg_number a])))))"

text \<open>
  One returned item: the header tuple, the raw bytes and the tuple of the typed decode
  (or \<^verbatim>\<open>None\<close>).
\<close>

type_synonym item = "pyval list \<times> byte list \<times> pyval list option"

text \<open>
  \<^verbatim>\<open>data = None; if structure is not None: data = structure.unpack_from(buf, pos)\<close>
\<close>

definition typed_data :: "struct option \<Rightarrow> byte list \<Rightarrow> nat \<Rightarrow> py_error + pyval list option" where
  "typed_data st b pos =
     (case st of
        None \<Rightarrow> Inr None
      | Some s \<Rightarrow> (case unpack_from s b pos of Inl e \<Rightarrow> Inl e | Inr d \<Rightarrow> Inr (Some d)))"

text \<open>The loop of lines 217 to 226, by recursion on \<^verbatim>\<open>num_items\<close>.\<close>

fun decode_items ::
  "byteorder \<Rightarrow> struct option \<Rightarrow> byte list \<Rightarrow> nat \<Rightarrow> nat \<Rightarrow> item list \<Rightarrow> py_error + item list"
where
  "decode_items native st b pos 0 ret = Inr ret"
| "decode_items native st b pos (Suc num_items) ret =
     (case unpack_from (ioctl_search_header native) b pos of
        Inl e \<Rightarrow> Inl e
      | Inr header \<Rightarrow>
          (case int_item header 4 of
             Inl e \<Rightarrow> Inl e
           | Inr len \<Rightarrow>
               (let pos1 = pos + struct_size (ioctl_search_header native);
                    raw_data = slice b pos1 (pos1 + nat len)
                in (case typed_data st b pos1 of
                      Inl e \<Rightarrow> Inl e
                    | Inr data \<Rightarrow>
                        decode_items native st b (pos1 + nat len) num_items
                          (ret @ [(header, raw_data, data)])))))"

text \<open>Lines 213 to 228: the count is item 9 of the key read back from the buffer.\<close>

definition decode_response :: "byteorder \<Rightarrow> struct option \<Rightarrow> byte list \<Rightarrow> py_error + item list" where
  "decode_response native st b =
     (case unpack_from (ioctl_search_key native) b 0 of
        Inl e \<Rightarrow> Inl e
      | Inr results \<Rightarrow>
          (case int_item results 9 of
             Inl e \<Rightarrow> Inl e
           | Inr num_items \<Rightarrow>
               decode_items native st b (struct_size (ioctl_search_key native))
                 (nat num_items) []))"

text \<open>
  \<^verbatim>\<open>fcntl.ioctl(fd, IOC_TREE_SEARCH, buf)\<close>: the kernel is a parameter, a function from the
  file descriptor, the request code and the buffer's bytes to an errno or the bytes it
  leaves there. It writes into the caller's array, whose length does not change.
\<close>

type_synonym 'fd kernel = "'fd \<Rightarrow> nat \<Rightarrow> byte list \<Rightarrow> nat + byte list"

definition ioctl :: "'fd kernel \<Rightarrow> 'fd \<Rightarrow> nat \<Rightarrow> byte list \<Rightarrow> py_error + byte list" where
  "ioctl k fd req b =
     (case k fd req b of
        Inl errno \<Rightarrow> Inl (OSError errno)
      | Inr out \<Rightarrow> Inr (take (length b) out @ drop (length out) b))"

text \<open>
  \<^verbatim>\<open>search\<close>: the result, with the calls made to the kernel (request code and buffer as
  passed), so that an error before the call shows as an empty list of calls.
\<close>

definition search ::
  "byteorder \<Rightarrow> 'fd kernel \<Rightarrow> 'fd \<Rightarrow> search_args \<Rightarrow> (nat \<times> byte list) list \<times> (py_error + item list)"
where
  "search native k fd a =
     (case encode_request native a of
        Inl e \<Rightarrow> ([], Inl e)
      | Inr b \<Rightarrow>
          (case ioctl k fd IOC_TREE_SEARCH b of
             Inl e \<Rightarrow> ([(IOC_TREE_SEARCH, b)], Inl e)
           | Inr b' \<Rightarrow> ([(IOC_TREE_SEARCH, b)], decode_response native (structure a) b')))"

section \<open>Well-formed requests and responses\<close>

text \<open>The values that fit an unsigned field of 8 and of 4 bytes.\<close>

definition is_u64 :: "int \<Rightarrow> bool" where
  "is_u64 v = (0 \<le> v \<and> v < 2 ^ 64)"

definition is_u32 :: "int \<Rightarrow> bool" where
  "is_u32 v = (0 \<le> v \<and> v < 2 ^ 32)"

fun is_chars :: "fcode \<Rightarrow> bool" where
  "is_chars (Chars n) = True"
| "is_chars c = False"

definition no_chars :: "fcode list \<Rightarrow> bool" where
  "no_chars cs = list_all (\<lambda>c. \<not> is_chars c) cs"

text \<open>
  The count of a response: the four bytes at the offset of the key's last integer field
  (7 * 8 + 2 * 4 = 64), which holds \<^verbatim>\<open>number\<close> in the request.
\<close>

definition result_count :: "byteorder \<Rightarrow> byte list \<Rightarrow> int" where
  "result_count native b = bytes_int native (slice b 64 68)"

text \<open>
  One entry of a response as the kernel packs it: the header's five fields, the last of
  them the length of the payload, and the payload right behind it.
\<close>

record entry =
  e_transid :: int
  e_objid :: int
  e_offset :: int
  e_type :: int
  e_data :: "byte list"

definition valid_entry :: "entry \<Rightarrow> bool" where
  "valid_entry e =
     (is_u64 (e_transid e) \<and> is_u64 (e_objid e) \<and> is_u64 (e_offset e) \<and>
      is_u32 (e_type e) \<and> is_u32 (int (length (e_data e))))"

definition header_of :: "entry \<Rightarrow> pyval list" where
  "header_of e =
     map PInt [e_transid e, e_objid e, e_offset e, e_type e, int (length (e_data e))]"

definition header_bytes :: "byteorder \<Rightarrow> int \<Rightarrow> int \<Rightarrow> int \<Rightarrow> int \<Rightarrow> int \<Rightarrow> byte list" where
  "header_bytes native t ob off ty len =
     int_bytes native 8 t @ int_bytes native 8 ob @ int_bytes native 8 off @
     int_bytes native 4 ty @ int_bytes native 4 len"

definition entry_bytes :: "byteorder \<Rightarrow> entry \<Rightarrow> byte list" where
  "entry_bytes native e =
     header_bytes native (e_transid e) (e_objid e) (e_offset e) (e_type e)
       (int (length (e_data e))) @ e_data e"

definition wire :: "byteorder \<Rightarrow> entry list \<Rightarrow> byte list" where
  "wire native es = concat (map (entry_bytes native) es)"

text \<open>
  What the typed decode of a structure makes of the bytes from a payload's start to the
  end of the buffer, and whether the structure fits in them.
\<close>

definition fits :: "struct option \<Rightarrow> byte list \<Rightarrow> bool" where
  "fits st bs = (case st of None \<Rightarrow> True | Some s \<Rightarrow> struct_size s \<le> length bs)"

definition typed :: "struct option \<Rightarrow> byte list \<Rightarrow> pyval list option" where
  "typed st bs =
     (case st of
        None \<Rightarrow> None
      | Some s \<Rightarrow> Some (unpack_fields (order s) (codes s) (take (struct_size s) bs)))"

fun all_fit :: "byteorder \<Rightarrow> struct option \<Rightarrow> entry list \<Rightarrow> byte list \<Rightarrow> bool" where
  "all_fit native st [] rest = True"
| "all_fit native st (e # es) rest =
     (fits st (e_data e @ wire native es @ rest) \<and> all_fit native st es rest)"

fun items_of :: "byteorder \<Rightarrow> struct option \<Rightarrow> entry list \<Rightarrow> byte list \<Rightarrow> item list" where
  "items_of native st [] rest = []"
| "items_of native st (e # es) rest =
     (header_of e, e_data e, typed st (e_data e @ wire native es @ rest)) #
     items_of native st es rest"

text \<open>A response envelope of 104 bytes whose count field holds \<open>n\<close>, all else zero.\<close>

definition envelope_with_count :: "byteorder \<Rightarrow> int \<Rightarrow> byte list" where
  "envelope_with_count native n = replicate 64 0 @ int_bytes native 4 n @ replicate 36 0"

text \<open>
  The 104 bytes of a search key in the kernel's layout: seven fields of 8 bytes, three of
  4 bytes, then 4 and 32 unused bytes.
\<close>

definition search_key_bytes ::
  "byteorder \<Rightarrow> int \<Rightarrow> int \<Rightarrow> int \<Rightarrow> int \<Rightarrow> int \<Rightarrow> int \<Rightarrow> int \<Rightarrow> int \<Rightarrow> int \<Rightarrow> int \<Rightarrow> byte list"
where
  "search_key_bytes native t a1 a2 b1 b2 c1 c2 d1 d2 n =
     int_bytes native 8 t @ int_bytes native 8 a1 @ int_bytes native 8 a2 @
     int_bytes native 8 b1 @ int_bytes native 8 b2 @
     int_bytes native 8 c1 @ int_bytes native 8 c2 @
     int_bytes native 4 d1 @ int_bytes native 4 d2 @ int_bytes native 4 n @
     replicate 4 0 @ replicate 32 0"

text \<open>A kernel that matches nothing: it leaves the buffer as it is but for a count of 0.\<close>

definition no_match_kernel :: "'fd kernel" where
  "no_match_kernel fd req b = Inr (take 64 b @ [0, 0, 0, 0] @ drop 68 b)"

section \<open>Example calls and responses\<close>

text \<open>
  A call for the items of type 84 of the objects 256 to 300 of tree 5, two at most, with a
  buffer of the caller's that just holds the key.
\<close>

definition example_args :: search_args where
  "example_args =
     \<lparr>tree = 5, objid = Some (Seq [256, 300]), key_type = Some (Scalar 84), offset = None,
      transid = None, number = Some 2, structure = None, buf = Some (sized_array 104)\<rparr>"

text \<open>A call that passes tree 5 and nothing else.\<close>

definition default_args :: search_args where
  "default_args =
     \<lparr>tree = 5, objid = None, key_type = None, offset = None, transid = None,
      number = None, structure = None, buf = None\<rparr>"

text \<open>A call whose object id range has its low bound 5 above its high bound 3.\<close>

definition reversed_args :: search_args where
  "reversed_args = default_args\<lparr>objid := Some (Seq [5, 3])\<rparr>"

text \<open>Three entries of a response: payloads of three bytes, of none and of two.\<close>

definition entry_a :: entry where
  "entry_a = \<lparr>e_transid = 7, e_objid = 256, e_offset = 0, e_type = 1, e_data = [1, 2, 3]\<rparr>"

definition entry_b :: entry where
  "entry_b = \<lparr>e_transid = 9, e_objid = 257, e_offset = 4, e_type = 84, e_data = []\<rparr>"

definition entry_c :: entry where
  "entry_c = \<lparr>e_transid = 7, e_objid = 258, e_offset = 0, e_type = 12, e_data = [5, 6]\<rparr>"

text \<open>A structure of two unsigned bytes, \<^verbatim>\<open>struct.Struct("<2B")\<close>.\<close>

definition two_bytes :: struct where
  "two_bytes = \<lparr>order = LittleEndian, codes = [UChar, UChar]\<rparr>"

section \<open>Integers as bytes, and packing against unpacking\<close>

lemma length_le_bytes [simp]: "length (le_bytes n v) = n"
  by (induction n arbitrary: v) simp_all

lemma le_int_le_bytes_mod: "le_int (le_bytes n v) = v mod 256 ^ n"
proof (induction n arbitrary: v)
  case 0
  show ?case by simp
next
  case (Suc n)
  have u: "uint (word_of_int v :: byte) = v mod 256"
    by (simp add: uint_word_of_int)
  have "le_int (le_bytes (Suc n) v) = v mod 256 + 256 * (v div 256 mod 256 ^ n)"
    by (simp only: le_bytes.simps le_int.simps u Suc.IH)
  also have "\<dots> = v mod (256 * 256 ^ n)"
    by (simp only: zmod_zmult2_eq [of "256 ^ n" v 256, OF zero_le_power [of 256 n, OF zero_le_numeral]] add.commute)
  finally show ?case by (simp only: power_Suc)
qed

lemma le_int_le_bytes: "0 \<le> v \<Longrightarrow> v < 256 ^ n \<Longrightarrow> le_int (le_bytes n v) = v"
  by (simp add: le_int_le_bytes_mod)

lemma length_int_bytes [simp]: "length (int_bytes bo n v) = n"
  by (simp add: int_bytes_def split: byteorder.split)

lemma bytes_int_int_bytes_mod: "bytes_int bo (int_bytes bo n v) = v mod 256 ^ n"
  by (simp add: bytes_int_def int_bytes_def le_int_le_bytes_mod split: byteorder.split)

lemma bytes_int_int_bytes: "0 \<le> v \<Longrightarrow> v < 256 ^ n \<Longrightarrow> bytes_int bo (int_bytes bo n v) = v"
  by (simp add: bytes_int_int_bytes_mod)

lemma pow256: "(256::int) ^ n = 2 ^ (8 * n)"
  by (simp add: power_mult)

lemma pack_field_length: "pack_field bo c v = Inr b \<Longrightarrow> length b = code_size c"
  by (cases "(bo, c, v)" rule: pack_field.cases) (auto split: if_splits)


lemma pack_field_unpack:
  assumes "pack_field bo c v = Inr b" and "\<not> is_chars c"
  shows "unpack_field bo c b = v"
proof (cases v)
  case (PBytes bs)
  with assms show ?thesis by (cases c) auto
next
  case (PInt i)
  show ?thesis
  proof (cases "c = SLongLong")
    case True
    with assms PInt have r: "- (2 ^ 63) \<le> i" "i < 2 ^ 63" and b: "b = int_bytes bo 8 i"
      by (auto split: if_splits)
    have m: "bytes_int bo b = i mod 2 ^ 64"
      by (simp add: b bytes_int_int_bytes_mod)
    show ?thesis
    proof (cases "0 \<le> i")
      case True
      with r have "i mod 2 ^ 64 = i" by simp
      with m r True PInt \<open>c = SLongLong\<close> show ?thesis by simp
    next
      case False
      with r have "(i + 2 ^ 64) mod 2 ^ 64 = i + 2 ^ 64"
        by (intro mod_pos_pos_trivial) simp_all
      then have "i mod 2 ^ 64 = i + 2 ^ 64"
        by (simp only: mod_add_self2)
      with m r False PInt \<open>c = SLongLong\<close> show ?thesis by simp
    qed
  next
    case False
    with assms PInt have r: "0 \<le> i" "i < 2 ^ (8 * code_size c)"
      and b: "b = int_bytes bo (code_size c) i"
      by (cases c; simp split: if_splits)+
    from r have "bytes_int bo b = i"
      by (simp add: b bytes_int_int_bytes pow256)
    with False assms(2) PInt show ?thesis by (cases c) simp_all
  qed
qed


lemma pack_fields_length:
  "pack_fields bo cs vs = Inr bs \<Longrightarrow> length bs = sum_list (map code_size cs)"
proof (induction cs arbitrary: vs bs)
  case Nil
  then show ?case by (simp split: if_splits)
next
  case (Cons c cs)
  then show ?case
    by (auto split: if_splits sum.splits list.splits dest: pack_field_length)
qed

lemma pack_fields_unpack:
  "pack_fields bo cs vs = Inr bs \<Longrightarrow> no_chars cs \<Longrightarrow> unpack_fields bo cs (bs @ rest) = vs"
proof (induction cs arbitrary: vs bs)
  case Nil
  then show ?case by (simp split: if_splits)
next
  case (Cons c cs)
  show ?case
  proof (cases "c = Pad")
    case True
    with Cons.prems obtain bs' where "pack_fields bo cs vs = Inr bs'" "bs = 0 # bs'"
      by (auto split: sum.splits)
    with Cons True show ?thesis by (simp add: no_chars_def)
  next
    case False
    with Cons.prems obtain v vs' b bs' where
      v: "vs = v # vs'" and b: "pack_field bo c v = Inr b"
      and r: "pack_fields bo cs vs' = Inr bs'" and bs: "bs = b @ bs'"
      by (auto split: sum.splits list.splits)
    from Cons.prems have nc: "\<not> is_chars c" and ncs: "no_chars cs"
      by (auto simp: no_chars_def)
    have "unpack_field bo c b = v" using b nc by (rule pack_field_unpack)
    moreover have "length b = code_size c" using b by (rule pack_field_length)
    moreover have "unpack_fields bo cs (bs' @ rest) = vs'" using r ncs by (rule Cons.IH)
    ultimately show ?thesis using False v bs by simp
  qed
qed

section \<open>The two ioctl structures\<close>

lemma struct_size_key [simp]: "struct_size (ioctl_search_key native) = 104"
  by (simp add: struct_size_def ioctl_search_key_def sum_list_replicate)

lemma struct_size_header [simp]: "struct_size (ioctl_search_header native) = 32"
  by (simp add: struct_size_def ioctl_search_header_def sum_list_replicate)

lemma no_chars_replicate: "no_chars (replicate n c) = (n = 0 \<or> \<not> is_chars c)"
  by (auto simp: no_chars_def list_all_iff)

lemma no_chars_append: "no_chars (xs @ ys) = (no_chars xs \<and> no_chars ys)"
  by (simp add: no_chars_def)

lemma no_chars_Cons: "no_chars (c # cs) = (\<not> is_chars c \<and> no_chars cs)"
  by (simp add: no_chars_def)

lemma no_chars_Nil: "no_chars []"
  by (simp add: no_chars_def)

lemma no_chars_key: "no_chars (codes (ioctl_search_key native))"
  by (simp add: ioctl_search_key_def no_chars_replicate no_chars_append no_chars_Cons no_chars_Nil)

lemma no_chars_header: "no_chars (codes (ioctl_search_header native))"
  by (simp add: ioctl_search_header_def no_chars_replicate no_chars_append)

lemma slice_append_left: "slice (xs @ ys @ zs) (length xs) (length xs + length ys) = ys"
  by (simp add: slice_def)

lemma unpack_from_packed:
  assumes "pack_fields (order s) (codes s) vs = Inr bs" and "no_chars (codes s)"
  shows "unpack_from s (pre @ bs @ rest) (length pre) = Inr vs"
proof -
  have len: "length bs = struct_size s"
    using assms(1) by (simp add: pack_fields_length struct_size_def)
  have "slice (pre @ bs @ rest) (length pre) (length pre + struct_size s) = bs"
    using slice_append_left [of pre bs rest] by (simp add: len)
  moreover have "unpack_fields (order s) (codes s) (bs @ []) = vs"
    using assms by (rule pack_fields_unpack)
  ultimately show ?thesis by (simp add: unpack_from_def len)
qed

lemma unpack_from_pack_into:
  assumes "pack_into s b off vs = Inr b'" and "no_chars (codes s)"
  shows "unpack_from s b' off = Inr vs"
proof -
  from assms(1) obtain bs where fit: "off + struct_size s \<le> length b"
    and bs: "pack_fields (order s) (codes s) vs = Inr bs"
    and b': "b' = take off b @ bs @ drop (off + struct_size s) b"
    by (auto simp: pack_into_def split: if_splits sum.splits)
  from fit have "length (take off b) = off" by simp
  with unpack_from_packed [OF bs assms(2), of "take off b" "drop (off + struct_size s) b"]
  show ?thesis by (simp add: b')
qed

lemma length_pack_into: "pack_into s b off vs = Inr b' \<Longrightarrow> length b' = length b"
  by (auto simp: pack_into_def struct_size_def split: if_splits sum.splits dest!: pack_fields_length)

section \<open>The layout of the key and of the header\<close>

lemma order_key [simp]: "order (ioctl_search_key native) = native"
  by (simp add: ioctl_search_key_def)

lemma order_header [simp]: "order (ioctl_search_header native) = native"
  by (simp add: ioctl_search_header_def)

lemma replicate_pads: "replicate 4 Pad @ replicate 32 Pad = replicate 36 Pad"
  by (simp add: replicate_add [symmetric])

lemma key_codes:
  "codes (ioctl_search_key native) =
     [ULongLong, ULongLong, ULongLong, ULongLong, ULongLong, ULongLong, ULongLong,
      ULong, ULong, ULong] @ replicate 36 Pad"
proof -
  have "replicate 6 ULongLong = [ULongLong, ULongLong, ULongLong, ULongLong, ULongLong, ULongLong]"
    by (simp add: numeral_eq_Suc)
  then show ?thesis
    by (simp add: ioctl_search_key_def replicate_pads)
qed

lemma header_codes:
  "codes (ioctl_search_header native) = [ULongLong, ULongLong, ULongLong, ULong, ULong]"
  by (simp add: ioctl_search_header_def numeral_eq_Suc)

lemma pack_fields_pads: "pack_fields bo (replicate n Pad) [] = Inr (replicate n 0)"
  by (induction n) simp_all

lemma unpack_fields_pads: "unpack_fields bo (replicate n Pad) bs = []"
  by (induction n arbitrary: bs) simp_all

lemma pack_fields_u64:
  "is_u64 v \<Longrightarrow> pack_fields bo (ULongLong # cs) (PInt v # vs) =
     (case pack_fields bo cs vs of Inl e \<Rightarrow> Inl e | Inr bs \<Rightarrow> Inr (int_bytes bo 8 v @ bs))"
  by (simp add: is_u64_def)

lemma pack_fields_u32:
  "is_u32 v \<Longrightarrow> pack_fields bo (ULong # cs) (PInt v # vs) =
     (case pack_fields bo cs vs of Inl e \<Rightarrow> Inl e | Inr bs \<Rightarrow> Inr (int_bytes bo 4 v @ bs))"
  by (simp add: is_u32_def)

lemma pack_key:
  assumes "is_u64 t" "is_u64 a1" "is_u64 a2" "is_u64 b1" "is_u64 b2" "is_u64 c1" "is_u64 c2"
    "is_u32 d1" "is_u32 d2" "is_u32 n"
  shows "pack_fields native (codes (ioctl_search_key native))
           (map PInt [t, a1, a2, b1, b2, c1, c2, d1, d2, n]) =
         Inr (int_bytes native 8 t @ int_bytes native 8 a1 @ int_bytes native 8 a2 @
              int_bytes native 8 b1 @ int_bytes native 8 b2 @
              int_bytes native 8 c1 @ int_bytes native 8 c2 @
              int_bytes native 4 d1 @ int_bytes native 4 d2 @ int_bytes native 4 n @
              replicate 4 0 @ replicate 32 0)"
  using assms
  by (simp only: key_codes list.map append.simps pack_fields_u64 pack_fields_u32
      pack_fields_pads sum.case replicate_add [symmetric]) simp

lemma pack_header:
  assumes "is_u64 t" "is_u64 ob" "is_u64 off" "is_u32 ty" "is_u32 len"
  shows "pack_fields native (codes (ioctl_search_header native)) (map PInt [t, ob, off, ty, len]) =
         Inr (header_bytes native t ob off ty len)"
  using assms
  by (simp only: header_codes list.map pack_fields_u64 pack_fields_u32 pack_fields.simps(1)
      sum.case header_bytes_def) simp

lemma length_header_bytes [simp]: "length (header_bytes native t ob off ty len) = 32"
  by (simp add: header_bytes_def)

lemma unpack_key_count:
  assumes "104 \<le> length b"
  shows "\<exists>results. unpack_from (ioctl_search_key native) b 0 = Inr results \<and>
           int_item results 9 = Inr (result_count native b)"
proof -
  have "take 4 (drop 64 (take 104 b)) = take 4 (drop 64 b)"
    by (simp add: drop_take)
  then show ?thesis
    using assms
    by (simp add: unpack_from_def key_codes int_item_def result_count_def slice_def
        unpack_fields_pads)
qed

section \<open>The decoding loop on well-formed entries\<close>

lemma wire_Nil [simp]: "wire native [] = []"
  by (simp add: wire_def)

lemma wire_Cons: "wire native (e # es) = entry_bytes native e @ wire native es"
  by (simp add: wire_def)

lemma wire_append: "wire native (xs @ ys) = wire native xs @ wire native ys"
  by (simp add: wire_def)

lemma unpack_header_entry:
  assumes "valid_entry e"
  shows "unpack_from (ioctl_search_header native) (pre @ entry_bytes native e @ rest) (length pre) =
         Inr (header_of e)"
proof -
  let ?hb = "header_bytes native (e_transid e) (e_objid e) (e_offset e) (e_type e)
               (int (length (e_data e)))"
  have "pack_fields (order (ioctl_search_header native)) (codes (ioctl_search_header native))
          (header_of e) = Inr ?hb"
    using assms by (simp add: valid_entry_def header_of_def pack_header del: list.map)
  from unpack_from_packed [OF this no_chars_header, of pre "e_data e @ rest"]
  show ?thesis by (simp add: entry_bytes_def)
qed

lemma int_item_header: "int_item (header_of e) 4 = Inr (int (length (e_data e)))"
  by (simp add: int_item_def header_of_def)

lemma typed_data_fits:
  "typed_data st (pre @ bs) (length pre) =
     (if fits st bs then Inr (typed st bs) else Inl StructError)"
  by (cases st) (auto simp: typed_data_def fits_def typed_def unpack_from_def slice_def)

lemma decode_entry:
  assumes "valid_entry e"
  shows "decode_items native st (pre @ entry_bytes native e @ rest) (length pre) (Suc n) ret =
     (if fits st (e_data e @ rest)
      then decode_items native st (pre @ entry_bytes native e @ rest)
             (length pre + length (entry_bytes native e)) n
             (ret @ [(header_of e, e_data e, typed st (e_data e @ rest))])
      else Inl StructError)"
proof -
  let ?hb = "header_bytes native (e_transid e) (e_objid e) (e_offset e) (e_type e)
               (int (length (e_data e)))"
  let ?b = "pre @ entry_bytes native e @ rest"
  have b: "?b = (pre @ ?hb) @ e_data e @ rest"
    by (simp add: entry_bytes_def)
  have raw: "slice ?b (length pre + 32) (length pre + 32 + length (e_data e)) = e_data e"
    using slice_append_left [of "pre @ ?hb" "e_data e" rest] by (simp add: entry_bytes_def)
  have ty: "typed_data st ?b (length pre + 32) =
      (if fits st (e_data e @ rest) then Inr (typed st (e_data e @ rest)) else Inl StructError)"
    using typed_data_fits [of st "pre @ ?hb" "e_data e @ rest"] by (simp add: entry_bytes_def)
  have len: "length (entry_bytes native e) = 32 + length (e_data e)"
    by (simp add: entry_bytes_def)
  show ?thesis
    apply (subst decode_items.simps(2))
    apply (simp only: unpack_header_entry [OF assms] sum.case int_item_header
        struct_size_header Let_def nat_int raw ty len)
    apply (simp add: add.assoc)
    done
qed

lemma decode_items_wire:
  "list_all valid_entry es \<Longrightarrow>
   decode_items native st (pre @ wire native es @ rest) (length pre) (length es + m) ret =
     (if all_fit native st es rest
      then decode_items native st (pre @ wire native es @ rest)
             (length pre + length (wire native es)) m (ret @ items_of native st es rest)
      else Inl StructError)"
proof (induction es arbitrary: pre ret)
  case Nil
  show ?case by simp
next
  case (Cons e es)
  from Cons.prems have ve: "valid_entry e" and ves: "list_all valid_entry es"
    by simp_all
  let ?b = "pre @ wire native (e # es) @ rest"
  have b: "?b = pre @ entry_bytes native e @ (wire native es @ rest)"
    by (simp add: wire_Cons)
  have b2: "?b = (pre @ entry_bytes native e) @ wire native es @ rest"
    by (simp add: wire_Cons)
  have step: "decode_items native st ?b (length pre) (Suc (length es + m)) ret =
     (if fits st (e_data e @ wire native es @ rest)
      then decode_items native st ?b (length (pre @ entry_bytes native e)) (length es + m)
             (ret @ [(header_of e, e_data e, typed st (e_data e @ wire native es @ rest))])
      else Inl StructError)"
    unfolding b using decode_entry [OF ve, of native st pre "wire native es @ rest"] by simp
  have rest: "decode_items native st ?b (length (pre @ entry_bytes native e)) (length es + m) r =
     (if all_fit native st es rest
      then decode_items native st ?b
             (length (pre @ entry_bytes native e) + length (wire native es)) m
             (r @ items_of native st es rest)
      else Inl StructError)" for r
    unfolding b2 by (rule Cons.IH [OF ves])
  have n: "length (e # es) + m = Suc (length es + m)"
    by simp
  show ?case
    unfolding n step rest by (simp add: wire_Cons add.assoc)
qed

section \<open>Decoding a whole response\<close>

lemma result_count_append:
  "68 \<le> length env \<Longrightarrow> result_count native (env @ xs) = result_count native env"
  by (simp add: result_count_def slice_def)

lemma decode_response_count:
  assumes "104 \<le> length b"
  shows "decode_response native st b = decode_items native st b 104 (nat (result_count native b)) []"
proof -
  from unpack_key_count [OF assms, of native] obtain results where
    "unpack_from (ioctl_search_key native) b 0 = Inr results"
    "int_item results 9 = Inr (result_count native b)"
    by blast
  then show ?thesis by (simp add: decode_response_def)
qed

lemma decode_response_wire:
  assumes "list_all valid_entry es" and "length env = 104"
    and "result_count native env = int (length es + m)"
  shows "decode_response native st (env @ wire native es @ rest) =
     (if all_fit native st es rest
      then decode_items native st (env @ wire native es @ rest)
             (104 + length (wire native es)) m (items_of native st es rest)
      else Inl StructError)"
proof -
  have "result_count native (env @ wire native es @ rest) = int (length es + m)"
    using assms(2,3) by (simp add: result_count_append)
  then have "nat (result_count native (env @ wire native es @ rest)) = length es + m"
    by (simp only: nat_int)
  then have "decode_response native st (env @ wire native es @ rest) =
      decode_items native st (env @ wire native es @ rest) (length env) (length es + m) []"
    using assms(2) by (simp add: decode_response_count)
  then show ?thesis
    using decode_items_wire [OF assms(1), of native st env rest m "[]"] assms(2) by simp
qed

lemma all_fit_None [simp]: "all_fit native None es rest"
  by (induction es) (simp_all add: fits_def)

lemma items_of_None:
  "items_of native None es rest = map (\<lambda>e. (header_of e, e_data e, None)) es"
  by (induction es) (simp_all add: typed_def)

lemma items_of_raw:
  "map (\<lambda>(h, raw, d). (h, raw)) (items_of native st es rest) =
   map (\<lambda>e. (header_of e, e_data e)) es"
  by (induction es) simp_all

lemma length_items_of [simp]: "length (items_of native st es rest) = length es"
  by (induction es) simp_all


lemma length_envelope [simp]: "length (envelope_with_count native n) = 104"
  by (simp add: envelope_with_count_def)

lemma count_envelope:
  "is_u32 n \<Longrightarrow> result_count native (envelope_with_count native n) = n"
  by (simp add: envelope_with_count_def result_count_def slice_def is_u32_def
      bytes_int_int_bytes)

lemma items_of_append:
  "items_of native st (xs @ ys) rest =
   items_of native st xs (wire native ys @ rest) @ items_of native st ys rest"
  by (induction xs) (simp_all add: wire_append)

text \<open>
  C1, as the code has it. A response that holds the count N in the key's last integer
  field and then N well-formed entries, each a header followed by as many payload bytes
  as the header's length field says, decodes as follows. With no structure given, the
  result is exactly N items in the order of the entries, each with its whole payload as
  raw bytes and a header whose length field is the payload's length, and the bytes after
  the last entry have no part in it. With a structure given, the headers and raw payloads
  are these same N, in the same order, when the structure fits in the bytes from every
  payload's start to the end of the buffer (trailing bytes included, which the typed
  decode then reads); when it does not fit, the call raises \<^verbatim>\<open>struct.error\<close> and returns
  no items.
\<close>

theorem decode_exactly_count:
  assumes "list_all valid_entry es" and "length env = 104"
    and "result_count native env = int (length es)"
  shows "decode_response native None (env @ wire native es @ trailing) =
           Inr (map (\<lambda>e. (header_of e, e_data e, None)) es) \<and>
         list_all (\<lambda>e. int_item (header_of e) 4 = Inr (int (length (e_data e)))) es \<and>
         map_sum id (map (\<lambda>(h, raw, d). (h, raw)))
           (decode_response native st (env @ wire native es @ trailing)) =
           (if all_fit native st es trailing
            then Inr (map (\<lambda>e. (header_of e, e_data e)) es) else Inl StructError)"
proof -
  have r: "decode_response native st' (env @ wire native es @ trailing) =
      (if all_fit native st' es trailing then Inr (items_of native st' es trailing)
       else Inl StructError)" for st'
    using decode_response_wire [OF assms(1,2), of native 0 st' trailing] assms(3) by simp
  have "decode_response native None (env @ wire native es @ trailing) =
      Inr (map (\<lambda>e. (header_of e, e_data e, None)) es)"
    by (simp add: r items_of_None)
  moreover have "list_all (\<lambda>e. int_item (header_of e) 4 = Inr (int (length (e_data e)))) es"
    by (simp add: int_item_header list_all_iff)
  moreover have "map_sum id (map (\<lambda>(h, raw, d). (h, raw)))
      (decode_response native st (env @ wire native es @ trailing)) =
      (if all_fit native st es trailing
       then Inr (map (\<lambda>e. (header_of e, e_data e)) es) else Inl StructError)"
    by (simp add: r items_of_raw)
  ultimately show ?thesis by blast
qed

section \<open>Empty results, empty payloads, typed payloads, short buffers\<close>

lemma length_ioctl: "ioctl k fd req b = Inr b' \<Longrightarrow> length b' = length b"
  by (auto simp: ioctl_def split: sum.splits)

lemma encode_request_length:
  assumes "encode_request native a = Inr b"
  shows "104 \<le> length b"
proof -
  from assms obtain vs where p: "pack_into (ioctl_search_key native) (arg_buf a) 0 vs = Inr b"
    by (auto simp: encode_request_def split: sum.splits prod.splits)
  then have "104 \<le> length (arg_buf a)"
    by (auto simp: pack_into_def split: if_splits)
  with length_pack_into [OF p] show ?thesis by simp
qed

lemma decode_response_zero:
  assumes "104 \<le> length b" and "result_count native b = 0"
  shows "decode_response native st b = Inr []"
  using assms by (simp add: decode_response_count)

text \<open>
  C8. A response whose count field is 0 decodes to the empty list, whatever the other
  bytes of the buffer are and whatever structure is given: the same value as for a
  search that matched nothing. A response buffer has at least the 104 bytes of the key,
  since the request was packed into it; a call of \<^verbatim>\<open>search\<close> whose kernel leaves the count
  0 returns the empty list.
\<close>

theorem empty_result:
  "(104 \<le> length b \<and> result_count native b = 0 \<longrightarrow> decode_response native st b = Inr []) \<and>
   (encode_request native a = Inr req \<and> ioctl k fd IOC_TREE_SEARCH req = Inr b' \<and>
    result_count native b' = 0 \<longrightarrow>
    search native k fd a = ([(IOC_TREE_SEARCH, req)], Inr []))"
proof (intro conjI impI)
  assume "104 \<le> length b \<and> result_count native b = 0"
  then show "decode_response native st b = Inr []"
    by (simp add: decode_response_zero)
next
  assume h: "encode_request native a = Inr req \<and> ioctl k fd IOC_TREE_SEARCH req = Inr b' \<and>
    result_count native b' = 0"
  then have "104 \<le> length b'"
    using encode_request_length [of native a req] length_ioctl [of k fd IOC_TREE_SEARCH req b']
    by simp
  with h have "decode_response native (structure a) b' = Inr []"
    by (simp add: decode_response_zero)
  with h show "search native k fd a = ([(IOC_TREE_SEARCH, req)], Inr [])"
    by (simp add: search_def)
qed

lemma decode_response_entries:
  assumes "list_all valid_entry es" and "length env = 104"
    and "result_count native env = int (length es)"
  shows "decode_response native st (env @ wire native es @ trailing) =
     (if all_fit native st es trailing then Inr (items_of native st es trailing)
      else Inl StructError)"
  using decode_response_wire [OF assms(1,2), of native 0 st trailing] assms(3) by simp

text \<open>
  C9, as the code has it. In a well-formed response, an entry whose header says length 0
  takes 32 bytes and no more: the cursor moves by the header alone. With no structure
  given, the entry decodes to an item with an empty raw payload and the entries before
  and after it decode as they are. With a structure given the same holds, the typed
  payload of the entry being read from the bytes that follow it, when the structure fits
  in the bytes from every payload's start to the end of the buffer; when it does not
  fit, as for an entry of length 0 at the end of the buffer, the call raises
  \<^verbatim>\<open>struct.error\<close> and returns no items.
\<close>

theorem zero_length_payload:
  assumes "list_all valid_entry (es1 @ e # es2)" and "e_data e = []"
    and "length env = 104" and "result_count native env = int (length (es1 @ e # es2))"
  shows "decode_response native None (env @ wire native (es1 @ e # es2) @ trailing) =
           Inr (map (\<lambda>x. (header_of x, e_data x, None)) es1 @
                (header_of e, [], None) #
                map (\<lambda>x. (header_of x, e_data x, None)) es2) \<and>
         decode_response native st (env @ wire native (es1 @ e # es2) @ trailing) =
           (if all_fit native st (es1 @ e # es2) trailing
            then Inr (items_of native st es1 (wire native (e # es2) @ trailing) @
                      (header_of e, [], typed st (wire native es2 @ trailing)) #
                      items_of native st es2 trailing)
            else Inl StructError) \<and>
         decode_items native st (pre @ entry_bytes native e @ rest) (length pre) (Suc n) ret =
           (if fits st rest
            then decode_items native st (pre @ entry_bytes native e @ rest) (length pre + 32) n
                   (ret @ [(header_of e, [], typed st rest)])
            else Inl StructError)"
proof -
  from assms(1) have ve: "valid_entry e" by simp
  have none: "decode_response native None (env @ wire native (es1 @ e # es2) @ trailing) =
      Inr (map (\<lambda>x. (header_of x, e_data x, None)) es1 @
           (header_of e, [], None) #
           map (\<lambda>x. (header_of x, e_data x, None)) es2)"
    using decode_response_entries [OF assms(1,3,4), of None trailing]
    by (simp add: items_of_None assms(2))
  have "items_of native st (es1 @ e # es2) trailing =
      items_of native st es1 (wire native (e # es2) @ trailing) @
      (header_of e, [], typed st (wire native es2 @ trailing)) #
      items_of native st es2 trailing"
    by (simp add: items_of_append assms(2))
  then have whole: "decode_response native st (env @ wire native (es1 @ e # es2) @ trailing) =
      (if all_fit native st (es1 @ e # es2) trailing
       then Inr (items_of native st es1 (wire native (e # es2) @ trailing) @
                 (header_of e, [], typed st (wire native es2 @ trailing)) #
                 items_of native st es2 trailing)
       else Inl StructError)"
    using decode_response_entries [OF assms(1,3,4), of st trailing] by simp
  have "length (entry_bytes native e) = 32"
    by (simp add: entry_bytes_def assms(2))
  then have step: "decode_items native st (pre @ entry_bytes native e @ rest) (length pre) (Suc n) ret =
      (if fits st rest
       then decode_items native st (pre @ entry_bytes native e @ rest) (length pre + 32) n
              (ret @ [(header_of e, [], typed st rest)])
       else Inl StructError)"
    using decode_entry [OF ve, of native st pre rest n ret] by (simp add: assms(2))
  from none whole step show ?thesis
    by (intro conjI)
qed


lemma decode_truncated:
  assumes "is_u64 t" "is_u64 ob" "is_u64 off" "is_u32 ty" "is_u32 len"
    and "int (length part) < len"
  shows "decode_items native st (pre @ header_bytes native t ob off ty len @ part)
           (length pre) (Suc k) ret =
         (if k = 0 \<and> fits st part
          then Inr (ret @ [(map PInt [t, ob, off, ty, len], part, typed st part)])
          else Inl StructError)"
proof -
  let ?hb = "header_bytes native t ob off ty len"
  let ?b = "pre @ ?hb @ part"
  have "pack_fields (order (ioctl_search_header native)) (codes (ioctl_search_header native))
          (map PInt [t, ob, off, ty, len]) = Inr ?hb"
    using assms(1-5) by (simp add: pack_header del: list.map)
  from unpack_from_packed [OF this no_chars_header, of pre part]
  have hd: "unpack_from (ioctl_search_header native) ?b (length pre) =
      Inr (map PInt [t, ob, off, ty, len])" .
  have it: "int_item (map PInt [t, ob, off, ty, len]) 4 = Inr len"
    by (simp add: int_item_def)
  have short: "length part < nat len"
    using assms(6) by linarith
  have raw: "slice ?b (length pre + 32) (length pre + 32 + nat len) = part"
    using short by (simp add: slice_def)
  have ty: "typed_data st ?b (length pre + 32) =
      (if fits st part then Inr (typed st part) else Inl StructError)"
    using typed_data_fits [of st "pre @ ?hb" part] by simp
  have nxt: "decode_items native st ?b (length pre + 32 + nat len) k r =
      (if k = 0 then Inr r else Inl StructError)" for r
  proof (cases k)
    case 0
    then show ?thesis by simp
  next
    case (Suc k')
    have "length ?b < length pre + 32 + nat len + 32"
      using short by simp
    then have "unpack_from (ioctl_search_header native) ?b (length pre + 32 + nat len) =
        Inl StructError"
      by (simp add: unpack_from_def)
    with Suc show ?thesis by simp
  qed
  show ?thesis
    apply (subst decode_items.simps(2))
    apply (simp only: hd sum.case it struct_size_header Let_def raw ty nxt)
    apply simp
    done
qed

lemma decode_response_truncated:
  assumes "list_all valid_entry es" and "length env = 104"
    and "is_u64 t" "is_u64 ob" "is_u64 off" "is_u32 ty" "is_u32 len"
    and "int (length part) < len"
    and "result_count native env = int (length es + Suc k)"
  shows "decode_response native st
           (env @ wire native es @ header_bytes native t ob off ty len @ part) =
         (if k = 0 \<and> all_fit native st es (header_bytes native t ob off ty len @ part) \<and>
             fits st part
          then Inr (items_of native st es (header_bytes native t ob off ty len @ part) @
                    [(map PInt [t, ob, off, ty, len], part, typed st part)])
          else Inl StructError)"
proof -
  let ?hb = "header_bytes native t ob off ty len"
  have "decode_items native st ((env @ wire native es) @ ?hb @ part)
          (length (env @ wire native es)) (Suc k) r =
        (if k = 0 \<and> fits st part
         then Inr (r @ [(map PInt [t, ob, off, ty, len], part, typed st part)])
         else Inl StructError)" for r
    using assms(3-8) by (rule decode_truncated)
  then have "\<And>r. decode_items native st (env @ wire native es @ ?hb @ part)
          (104 + length (wire native es)) (Suc k) r =
        (if k = 0 \<and> fits st part
         then Inr (r @ [(map PInt [t, ob, off, ty, len], part, typed st part)])
         else Inl StructError)"
    using assms(2) by (simp del: decode_items.simps)
  note last = this
  note first = decode_response_wire [OF assms(1,2,9), of st "?hb @ part"]
  show ?thesis
    unfolding first last by simp
qed

section \<open>Encoding the request\<close>

lemma encode_request_pack:
  assumes "unpack_pair (arg_objid a) = Inr (a1, a2)"
    and "unpack_pair (arg_key_type a) = Inr (d1, d2)"
    and "unpack_pair (arg_offset a) = Inr (b1, b2)"
    and "unpack_pair (arg_transid a) = Inr (c1, c2)"
  shows "encode_request native a =
         pack_into (ioctl_search_key native) (arg_buf a) 0
           (map PInt [tree a, a1, a2, b1, b2, c1, c2, d1, d2, arg_number a])"
  using assms by (simp add: encode_request_def)

lemma length_search_key_bytes [simp]:
  "length (search_key_bytes native t a1 a2 b1 b2 c1 c2 d1 d2 n) = 104"
  by (simp add: search_key_bytes_def)

lemma encode_request_bytes:
  assumes "unpack_pair (arg_objid a) = Inr (a1, a2)"
    and "unpack_pair (arg_key_type a) = Inr (d1, d2)"
    and "unpack_pair (arg_offset a) = Inr (b1, b2)"
    and "unpack_pair (arg_transid a) = Inr (c1, c2)"
    and "is_u64 (tree a)" "is_u64 a1" "is_u64 a2" "is_u64 b1" "is_u64 b2" "is_u64 c1" "is_u64 c2"
    and "is_u32 d1" "is_u32 d2" "is_u32 (arg_number a)"
    and "104 \<le> length (arg_buf a)"
  shows "encode_request native a =
         Inr (search_key_bytes native (tree a) a1 a2 b1 b2 c1 c2 d1 d2 (arg_number a) @
              drop 104 (arg_buf a))"
proof -
  have "pack_fields (order (ioctl_search_key native)) (codes (ioctl_search_key native))
          (map PInt [tree a, a1, a2, b1, b2, c1, c2, d1, d2, arg_number a]) =
        Inr (search_key_bytes native (tree a) a1 a2 b1 b2 c1 c2 d1 d2 (arg_number a))"
    using assms(5-14) by (simp add: pack_key search_key_bytes_def del: list.map)
  then show ?thesis
    using assms(15) by (simp add: encode_request_pack [OF assms(1-4)] pack_into_def del: list.map)
qed

lemma encode_request_unpack:
  assumes "unpack_pair (arg_objid a) = Inr (a1, a2)"
    and "unpack_pair (arg_key_type a) = Inr (d1, d2)"
    and "unpack_pair (arg_offset a) = Inr (b1, b2)"
    and "unpack_pair (arg_transid a) = Inr (c1, c2)"
    and "encode_request native a = Inr b"
  shows "unpack_from (ioctl_search_key native) b 0 =
         Inr (map PInt [tree a, a1, a2, b1, b2, c1, c2, d1, d2, arg_number a])"
proof -
  have "pack_into (ioctl_search_key native) (arg_buf a) 0
          (map PInt [tree a, a1, a2, b1, b2, c1, c2, d1, d2, arg_number a]) = Inr b"
    using assms(5) by (simp only: encode_request_pack [OF assms(1-4)])
  then show ?thesis
    using no_chars_key by (rule unpack_from_pack_into)
qed

lemma search_calls:
  "encode_request native a = Inr b \<Longrightarrow> fst (search native k fd a) = [(IOC_TREE_SEARCH, b)]"
  by (simp add: search_def split: sum.split)

lemma search_encode_error:
  "encode_request native a = Inl e \<Longrightarrow> search native k fd a = ([], Inl e)"
  by (simp add: search_def)

lemma search_cong:
  "encode_request native a = encode_request native a' \<Longrightarrow> structure a = structure a' \<Longrightarrow>
   search native k fd a = search native k fd a'"
  by (simp add: search_def cong: sum.case_cong)

lemma arg_updates [simp]:
  "arg_objid (a\<lparr>key_type := x\<rparr>) = arg_objid a"
  "arg_objid (a\<lparr>offset := x\<rparr>) = arg_objid a"
  "arg_objid (a\<lparr>transid := x\<rparr>) = arg_objid a"
  "arg_objid (a\<lparr>number := y\<rparr>) = arg_objid a"
  "arg_key_type (a\<lparr>objid := x\<rparr>) = arg_key_type a"
  "arg_key_type (a\<lparr>offset := x\<rparr>) = arg_key_type a"
  "arg_key_type (a\<lparr>transid := x\<rparr>) = arg_key_type a"
  "arg_key_type (a\<lparr>number := y\<rparr>) = arg_key_type a"
  "arg_offset (a\<lparr>objid := x\<rparr>) = arg_offset a"
  "arg_offset (a\<lparr>key_type := x\<rparr>) = arg_offset a"
  "arg_offset (a\<lparr>transid := x\<rparr>) = arg_offset a"
  "arg_offset (a\<lparr>number := y\<rparr>) = arg_offset a"
  "arg_transid (a\<lparr>objid := x\<rparr>) = arg_transid a"
  "arg_transid (a\<lparr>key_type := x\<rparr>) = arg_transid a"
  "arg_transid (a\<lparr>offset := x\<rparr>) = arg_transid a"
  "arg_transid (a\<lparr>number := y\<rparr>) = arg_transid a"
  "arg_number (a\<lparr>objid := x\<rparr>) = arg_number a"
  "arg_number (a\<lparr>key_type := x\<rparr>) = arg_number a"
  "arg_number (a\<lparr>offset := x\<rparr>) = arg_number a"
  "arg_number (a\<lparr>transid := x\<rparr>) = arg_number a"
  "arg_buf (a\<lparr>objid := x\<rparr>) = arg_buf a"
  "arg_buf (a\<lparr>key_type := x\<rparr>) = arg_buf a"
  "arg_buf (a\<lparr>offset := x\<rparr>) = arg_buf a"
  "arg_buf (a\<lparr>transid := x\<rparr>) = arg_buf a"
  "arg_buf (a\<lparr>number := y\<rparr>) = arg_buf a"
  by (simp_all add: arg_objid_def arg_key_type_def arg_offset_def arg_transid_def
      arg_number_def arg_buf_def)

lemma encode_request_objid:
  "unpack_pair r = unpack_pair r' \<Longrightarrow>
   encode_request native (a\<lparr>objid := Some r\<rparr>) = encode_request native (a\<lparr>objid := Some r'\<rparr>)"
  by (simp add: encode_request_def arg_objid_def cong: sum.case_cong prod.case_cong)

lemma encode_request_key_type:
  "unpack_pair r = unpack_pair r' \<Longrightarrow>
   encode_request native (a\<lparr>key_type := Some r\<rparr>) =
   encode_request native (a\<lparr>key_type := Some r'\<rparr>)"
  by (simp add: encode_request_def arg_key_type_def cong: sum.case_cong prod.case_cong)

lemma encode_request_offset:
  "unpack_pair r = unpack_pair r' \<Longrightarrow>
   encode_request native (a\<lparr>offset := Some r\<rparr>) = encode_request native (a\<lparr>offset := Some r'\<rparr>)"
  by (simp add: encode_request_def arg_offset_def cong: sum.case_cong prod.case_cong)

lemma encode_request_transid:
  "unpack_pair r = unpack_pair r' \<Longrightarrow>
   encode_request native (a\<lparr>transid := Some r\<rparr>) =
   encode_request native (a\<lparr>transid := Some r'\<rparr>)"
  by (simp add: encode_request_def arg_transid_def cong: sum.case_cong prod.case_cong)

text \<open>
  C5. In each of the four dimensions, a call that passes the number \<open>v\<close> packs the same
  request bytes as the call that passes the pair \<open>(v, v)\<close>, all else equal, and so the
  whole call gives the same result and makes the same call to the kernel.
\<close>

theorem scalar_is_pair:
  "encode_request native (a\<lparr>objid := Some (Scalar v)\<rparr>) =
     encode_request native (a\<lparr>objid := Some (Seq [v, v])\<rparr>) \<and>
   encode_request native (a\<lparr>key_type := Some (Scalar v)\<rparr>) =
     encode_request native (a\<lparr>key_type := Some (Seq [v, v])\<rparr>) \<and>
   encode_request native (a\<lparr>offset := Some (Scalar v)\<rparr>) =
     encode_request native (a\<lparr>offset := Some (Seq [v, v])\<rparr>) \<and>
   encode_request native (a\<lparr>transid := Some (Scalar v)\<rparr>) =
     encode_request native (a\<lparr>transid := Some (Seq [v, v])\<rparr>) \<and>
   search native k fd (a\<lparr>objid := Some (Scalar v)\<rparr>) =
     search native k fd (a\<lparr>objid := Some (Seq [v, v])\<rparr>) \<and>
   search native k fd (a\<lparr>key_type := Some (Scalar v)\<rparr>) =
     search native k fd (a\<lparr>key_type := Some (Seq [v, v])\<rparr>) \<and>
   search native k fd (a\<lparr>offset := Some (Scalar v)\<rparr>) =
     search native k fd (a\<lparr>offset := Some (Seq [v, v])\<rparr>) \<and>
   search native k fd (a\<lparr>transid := Some (Scalar v)\<rparr>) =
     search native k fd (a\<lparr>transid := Some (Seq [v, v])\<rparr>)"
proof -
  have p: "unpack_pair (Scalar v) = unpack_pair (Seq [v, v])"
    by simp
  note e = encode_request_objid [OF p] encode_request_key_type [OF p]
    encode_request_offset [OF p] encode_request_transid [OF p]
  show ?thesis
    by (intro conjI search_cong e) simp_all
qed

section \<open>Round trip, layout, defaults and unchecked ranges\<close>

text \<open>
  C4. For a key whose values all fit their fields and a buffer that holds the key,
  packing the key into the buffer succeeds, and reading the key back from the same
  offsets gives the values that went in, each in its place: tree, object id low and
  high, offset low and high, transaction id low and high, type low and high, number.
\<close>

theorem key_roundtrip:
  assumes "unpack_pair (arg_objid a) = Inr (a1, a2)"
    and "unpack_pair (arg_key_type a) = Inr (d1, d2)"
    and "unpack_pair (arg_offset a) = Inr (b1, b2)"
    and "unpack_pair (arg_transid a) = Inr (c1, c2)"
    and "is_u64 (tree a)" "is_u64 a1" "is_u64 a2" "is_u64 b1" "is_u64 b2" "is_u64 c1" "is_u64 c2"
    and "is_u32 d1" "is_u32 d2" "is_u32 (arg_number a)"
    and "104 \<le> length (arg_buf a)"
  shows "\<exists>b. encode_request native a = Inr b \<and>
           unpack_from (ioctl_search_key native) b 0 =
             Inr (map PInt [tree a, a1, a2, b1, b2, c1, c2, d1, d2, arg_number a])"
proof -
  from encode_request_bytes [OF assms, of native] obtain b where
    b: "encode_request native a = Inr b"
    by blast
  from encode_request_unpack [OF assms(1-4) b] b show ?thesis
    by blast
qed

text \<open>
  C6. The buffer that \<^verbatim>\<open>search\<close> hands to the kernel starts with the key in this order:
  the tree (8 bytes), the object id's low and high bound (8 bytes each), the offset's,
  the transaction id's, then the type's low and high bound (4 bytes each) and the number
  (4 bytes), and then 4 and 32 bytes of zeros; the buffer's bytes from 104 on are as
  they were.
\<close>

theorem key_layout:
  assumes "unpack_pair (arg_objid a) = Inr (a1, a2)"
    and "unpack_pair (arg_key_type a) = Inr (d1, d2)"
    and "unpack_pair (arg_offset a) = Inr (b1, b2)"
    and "unpack_pair (arg_transid a) = Inr (c1, c2)"
    and "is_u64 (tree a)" "is_u64 a1" "is_u64 a2" "is_u64 b1" "is_u64 b2" "is_u64 c1" "is_u64 c2"
    and "is_u32 d1" "is_u32 d2" "is_u32 (arg_number a)"
    and "104 \<le> length (arg_buf a)"
  shows "fst (search native k fd a) =
         [(IOC_TREE_SEARCH,
           int_bytes native 8 (tree a) @
           int_bytes native 8 a1 @ int_bytes native 8 a2 @
           int_bytes native 8 b1 @ int_bytes native 8 b2 @
           int_bytes native 8 c1 @ int_bytes native 8 c2 @
           int_bytes native 4 d1 @ int_bytes native 4 d2 @
           int_bytes native 4 (arg_number a) @
           replicate 4 0 @ replicate 32 0 @
           drop 104 (arg_buf a))]"
  using search_calls [OF encode_request_bytes [OF assms, of native], of k fd]
  by (simp add: search_key_bytes_def)

lemma encode_request_default_objid:
  "encode_request native (a\<lparr>objid := None\<rparr>) =
   encode_request native (a\<lparr>objid := Some (Seq [0, 2 ^ 64 - 1])\<rparr>)"
  by (simp add: encode_request_def arg_objid_def ULLONG_MAX_def
      cong: sum.case_cong prod.case_cong)

lemma encode_request_default_key_type:
  "encode_request native (a\<lparr>key_type := None\<rparr>) =
   encode_request native (a\<lparr>key_type := Some (Seq [0, 2 ^ 32 - 1])\<rparr>)"
  by (simp add: encode_request_def arg_key_type_def ULONG_MAX_def
      cong: sum.case_cong prod.case_cong)

lemma encode_request_default_offset:
  "encode_request native (a\<lparr>offset := None\<rparr>) =
   encode_request native (a\<lparr>offset := Some (Seq [0, 2 ^ 64 - 1])\<rparr>)"
  by (simp add: encode_request_def arg_offset_def ULLONG_MAX_def
      cong: sum.case_cong prod.case_cong)

lemma encode_request_default_transid:
  "encode_request native (a\<lparr>transid := None\<rparr>) =
   encode_request native (a\<lparr>transid := Some (Seq [0, 2 ^ 64 - 1])\<rparr>)"
  by (simp add: encode_request_def arg_transid_def ULLONG_MAX_def
      cong: sum.case_cong prod.case_cong)

lemma encode_request_default_number:
  "encode_request native (a\<lparr>number := None\<rparr>) =
   encode_request native (a\<lparr>number := Some (2 ^ 32 - 1)\<rparr>)"
  by (simp add: encode_request_def arg_number_def ULONG_MAX_def
      cong: sum.case_cong prod.case_cong)

lemma encode_request_all_default:
  assumes "objid a = None" "key_type a = None" "offset a = None" "transid a = None"
    "number a = None" "is_u64 (tree a)" "104 \<le> length (arg_buf a)"
  shows "\<exists>b. encode_request native a = Inr b \<and>
           unpack_from (ioctl_search_key native) b 0 =
             Inr (map PInt [tree a, 0, 2 ^ 64 - 1, 0, 2 ^ 64 - 1, 0, 2 ^ 64 - 1,
                            0, 2 ^ 32 - 1, 2 ^ 32 - 1])"
proof -
  have p: "unpack_pair (arg_objid a) = Inr (0, 2 ^ 64 - 1)"
    "unpack_pair (arg_key_type a) = Inr (0, 2 ^ 32 - 1)"
    "unpack_pair (arg_offset a) = Inr (0, 2 ^ 64 - 1)"
    "unpack_pair (arg_transid a) = Inr (0, 2 ^ 64 - 1)"
    using assms(1-4)
    by (simp_all add: arg_objid_def arg_key_type_def arg_offset_def arg_transid_def
        ULLONG_MAX_def ULONG_MAX_def)
  have n: "arg_number a = 2 ^ 32 - 1"
    using assms(5) by (simp add: arg_number_def ULONG_MAX_def)
  have v: "is_u64 0" "is_u64 (2 ^ 64 - 1)" "is_u32 0" "is_u32 (2 ^ 32 - 1)"
    by (simp_all add: is_u64_def is_u32_def)
  have "is_u32 (arg_number a)"
    by (simp add: n is_u32_def)
  from encode_request_bytes [OF p assms(6) v(1,2) v(1,2) v(1,2) v(3,4) this assms(7), of native]
  obtain b where b: "encode_request native a = Inr b"
    by blast
  from encode_request_unpack [OF p b] b show ?thesis
    by (simp only: n) blast
qed

text \<open>
  C7. A call that leaves out a range is the call that passes the whole domain for it:
  \<open>(0, 2\<^sup>6\<^sup>4 - 1)\<close> for object id, offset and transaction id, \<open>(0, 2\<^sup>3\<^sup>2 - 1)\<close> for the type;
  and a call that leaves out the number is the call that passes \<open>2\<^sup>3\<^sup>2 - 1\<close>. With all
  five left out, the key that is packed holds these bounds.
\<close>

theorem omitted_arguments_default:
  "search native k fd (a\<lparr>objid := None\<rparr>) =
     search native k fd (a\<lparr>objid := Some (Seq [0, 2 ^ 64 - 1])\<rparr>) \<and>
   search native k fd (a\<lparr>key_type := None\<rparr>) =
     search native k fd (a\<lparr>key_type := Some (Seq [0, 2 ^ 32 - 1])\<rparr>) \<and>
   search native k fd (a\<lparr>offset := None\<rparr>) =
     search native k fd (a\<lparr>offset := Some (Seq [0, 2 ^ 64 - 1])\<rparr>) \<and>
   search native k fd (a\<lparr>transid := None\<rparr>) =
     search native k fd (a\<lparr>transid := Some (Seq [0, 2 ^ 64 - 1])\<rparr>) \<and>
   search native k fd (a\<lparr>number := None\<rparr>) =
     search native k fd (a\<lparr>number := Some (2 ^ 32 - 1)\<rparr>) \<and>
   (objid a = None \<and> key_type a = None \<and> offset a = None \<and> transid a = None \<and>
    number a = None \<and> is_u64 (tree a) \<and> 104 \<le> length (arg_buf a) \<longrightarrow>
    (\<exists>b. encode_request native a = Inr b \<and>
       unpack_from (ioctl_search_key native) b 0 =
         Inr (map PInt [tree a, 0, 2 ^ 64 - 1, 0, 2 ^ 64 - 1, 0, 2 ^ 64 - 1,
                        0, 2 ^ 32 - 1, 2 ^ 32 - 1])))"
proof -
  note e = encode_request_default_objid encode_request_default_key_type
    encode_request_default_offset encode_request_default_transid
    encode_request_default_number
  show ?thesis
    by (intro conjI impI search_cong e encode_request_all_default) simp_all
qed

lemma bytes_int_zeros: "bytes_int native [0, 0, 0, 0] = 0"
  by (simp add: bytes_int_def split: byteorder.split)

lemma search_no_match:
  assumes "encode_request native a = Inr b"
  shows "search native no_match_kernel fd a = ([(IOC_TREE_SEARCH, b)], Inr [])"
proof -
  have len: "104 \<le> length b"
    using assms by (rule encode_request_length)
  let ?b' = "take 64 b @ [0, 0, 0, 0] @ drop 68 b"
  have io: "ioctl no_match_kernel fd IOC_TREE_SEARCH b = Inr ?b'"
    using len by (simp add: ioctl_def no_match_kernel_def)
  have "result_count native ?b' = 0"
    using len by (simp add: result_count_def slice_def bytes_int_zeros)
  moreover have "104 \<le> length ?b'"
    using len by simp
  ultimately have "decode_response native (structure a) ?b' = Inr []"
    by (simp add: decode_response_zero)
  with assms io show ?thesis
    by (simp add: search_def)
qed

text \<open>
  C3, as the code has it. The order of a range's bounds is not looked at: whenever the
  values fit their fields and the buffer holds the key, the bounds are packed as they
  were passed, low bound in the field of the minimum and high bound in the field of the
  maximum, also when low is above high, and the kernel is called once with that buffer.
  The errors of encoding (a value outside its field, a buffer under 104 bytes, a range
  that is a sequence of other than two elements) come before any call to the kernel.
\<close>

theorem range_passed_unchecked:
  assumes "unpack_pair (arg_objid a) = Inr (a1, a2)"
    and "unpack_pair (arg_key_type a) = Inr (d1, d2)"
    and "unpack_pair (arg_offset a) = Inr (b1, b2)"
    and "unpack_pair (arg_transid a) = Inr (c1, c2)"
    and "is_u64 (tree a)" "is_u64 a1" "is_u64 a2" "is_u64 b1" "is_u64 b2" "is_u64 c1" "is_u64 c2"
    and "is_u32 d1" "is_u32 d2" "is_u32 (arg_number a)"
    and "104 \<le> length (arg_buf a)"
  shows "(\<exists>b. fst (search native k fd a) = [(IOC_TREE_SEARCH, b)] \<and>
            unpack_from (ioctl_search_key native) b 0 =
              Inr (map PInt [tree a, a1, a2, b1, b2, c1, c2, d1, d2, arg_number a])) \<and>
         (encode_request native a' = Inl e \<longrightarrow> search native k fd a' = ([], Inl e))"
proof -
  from encode_request_bytes [OF assms, of native] obtain b where
    b: "encode_request native a = Inr b"
    by blast
  from encode_request_unpack [OF assms(1-4) b] search_calls [OF b, of k fd]
  show ?thesis
    by (auto simp: search_encode_error)
qed

text \<open>
  C2, as the code has it. When the header of the entry after some well-formed entries
  says a length above the bytes that are left, the raw payload is those bytes that are
  left and nothing beyond the buffer is read. If that entry is the last one counted and
  the typed decode, when asked for, fits, the call returns normally with the shortened
  payload; if more entries are counted, or a typed decode does not fit, the call raises
  \<^verbatim>\<open>struct.error\<close> and returns no items.
\<close>

theorem truncated_payload:
  assumes "list_all valid_entry es" and "length env = 104"
    and "is_u64 t" "is_u64 ob" "is_u64 off" "is_u32 ty" "is_u32 len"
    and "int (length part) < len"
    and "result_count native env = int (length es + Suc k)"
  shows "decode_response native st
           (env @ wire native es @ header_bytes native t ob off ty len @ part) =
         (if k = 0 \<and> all_fit native st es (header_bytes native t ob off ty len @ part) \<and>
             fits st part
          then Inr (items_of native st es (header_bytes native t ob off ty len @ part) @
                    [(map PInt [t, ob, off, ty, len], part, typed st part)])
          else Inl StructError)"
  using assms by (rule decode_response_truncated)

section \<open>The properties of decoding on example responses\<close>

lemma le_bytes_numeral:
  "le_bytes (numeral k) v = word_of_int v # le_bytes (pred_numeral k) (v div 256)"
  by (simp add: numeral_eq_Suc)

lemma valid_examples: "valid_entry entry_a" "valid_entry entry_b" "valid_entry entry_c"
  by (simp_all add: valid_entry_def entry_a_def entry_b_def entry_c_def is_u64_def is_u32_def)

lemma encode_example:
  "encode_request native example_args =
     Inr (search_key_bytes native 5 256 300 0 (2 ^ 64 - 1) 0 (2 ^ 64 - 1) 84 84 2)"
  using encode_request_bytes [of example_args 256 300 84 84 0 "2 ^ 64 - 1" 0 "2 ^ 64 - 1" native]
  by (simp add: example_args_def arg_objid_def arg_key_type_def arg_offset_def arg_transid_def
      arg_number_def arg_buf_def ULLONG_MAX_def is_u64_def is_u32_def sized_array_def)

lemma encode_reversed:
  "encode_request native reversed_args =
     Inr (search_key_bytes native 5 5 3 0 (2 ^ 64 - 1) 0 (2 ^ 64 - 1) 0 (2 ^ 32 - 1) (2 ^ 32 - 1) @
          replicate 3992 0)"
  using encode_request_bytes [of reversed_args 5 3 0 "2 ^ 32 - 1" 0 "2 ^ 64 - 1" 0 "2 ^ 64 - 1" native]
  by (simp add: reversed_args_def default_args_def arg_objid_def arg_key_type_def arg_offset_def
      arg_transid_def arg_number_def arg_buf_def ULLONG_MAX_def ULONG_MAX_def is_u64_def
      is_u32_def sized_array_def)

theorem decode_exactly_count_witness:
  "list_all valid_entry [entry_a, entry_b] \<and>
   length (envelope_with_count LittleEndian 2) = 104 \<and>
   result_count LittleEndian (envelope_with_count LittleEndian 2) = 2 \<and>
   decode_response LittleEndian None
     (envelope_with_count LittleEndian 2 @ wire LittleEndian [entry_a, entry_b] @ [255, 255]) =
     Inr [([PInt 7, PInt 256, PInt 0, PInt 1, PInt 3], [1, 2, 3], None),
          ([PInt 9, PInt 257, PInt 4, PInt 84, PInt 0], [], None)]"
proof -
  have v: "list_all valid_entry [entry_a, entry_b]"
    by (simp add: valid_examples)
  have l: "length (envelope_with_count LittleEndian 2) = 104"
    by simp
  have c: "result_count LittleEndian (envelope_with_count LittleEndian 2) =
      int (length [entry_a, entry_b])"
    by (simp add: count_envelope is_u32_def)
  from decode_exactly_count [OF v l c, of "[255, 255]" None] v l c
  show ?thesis by (simp add: header_of_def entry_a_def entry_b_def)
qed

theorem empty_result_witness:
  "104 \<le> length (envelope_with_count LittleEndian 0 @ [1, 2, 3]) \<and>
   result_count LittleEndian (envelope_with_count LittleEndian 0 @ [1, 2, 3]) = 0 \<and>
   decode_response LittleEndian (Some two_bytes) (envelope_with_count LittleEndian 0 @ [1, 2, 3]) =
     Inr [] \<and>
   search LittleEndian no_match_kernel () example_args =
     ([(IOC_TREE_SEARCH,
        search_key_bytes LittleEndian 5 256 300 0 (2 ^ 64 - 1) 0 (2 ^ 64 - 1) 84 84 2)],
      Inr [])"
proof -
  let ?b = "envelope_with_count LittleEndian 0 @ [1, 2, 3]"
  let ?req = "search_key_bytes LittleEndian 5 256 300 0 (2 ^ 64 - 1) 0 (2 ^ 64 - 1) 84 84 2"
  let ?b' = "take 64 ?req @ [0, 0, 0, 0] @ drop 68 ?req"
  have l: "104 \<le> length ?b"
    by simp
  have c: "result_count LittleEndian ?b = 0"
    by (simp add: result_count_append count_envelope is_u32_def)
  have io: "ioctl no_match_kernel () IOC_TREE_SEARCH ?req = Inr ?b'"
    by (simp add: ioctl_def no_match_kernel_def)
  have c': "result_count LittleEndian ?b' = 0"
    by (simp add: result_count_def slice_def bytes_int_zeros)
  from empty_result [of ?b LittleEndian "Some two_bytes" example_args ?req no_match_kernel
      "()" ?b'] l c io c' encode_example [of LittleEndian]
  show ?thesis by simp
qed

theorem zero_length_payload_witness:
  "list_all valid_entry ([entry_a] @ entry_b # [entry_c]) \<and> e_data entry_b = [] \<and>
   result_count LittleEndian (envelope_with_count LittleEndian 3) = 3 \<and>
   decode_response LittleEndian None
     (envelope_with_count LittleEndian 3 @
      wire LittleEndian ([entry_a] @ entry_b # [entry_c]) @ [9]) =
     Inr [([PInt 7, PInt 256, PInt 0, PInt 1, PInt 3], [1, 2, 3], None),
          ([PInt 9, PInt 257, PInt 4, PInt 84, PInt 0], [], None),
          ([PInt 7, PInt 258, PInt 0, PInt 12, PInt 2], [5, 6], None)] \<and>
   decode_items LittleEndian None (entry_bytes LittleEndian entry_b) 0 (Suc 0) [] =
     Inr [([PInt 9, PInt 257, PInt 4, PInt 84, PInt 0], [], None)]"
proof -
  have v: "list_all valid_entry ([entry_a] @ entry_b # [entry_c])"
    by (simp add: valid_examples)
  have d: "e_data entry_b = []"
    by (simp add: entry_b_def)
  have l: "length (envelope_with_count LittleEndian 3) = 104"
    by simp
  have c: "result_count LittleEndian (envelope_with_count LittleEndian 3) =
      int (length ([entry_a] @ entry_b # [entry_c]))"
    by (simp add: count_envelope is_u32_def)
  note t = zero_length_payload [OF v d l c, where
      trailing = "[9]" and st = None and pre = "[]" and rest = "[]" and n = 0 and ret = "[]"]
  from t [THEN conjunct1] t [THEN conjunct2, THEN conjunct2] v d c
  show ?thesis
    by (simp add: header_of_def entry_a_def entry_b_def entry_c_def fits_def typed_def)
qed


theorem truncated_payload_counterexample:
  "decode_response LittleEndian None
     (envelope_with_count LittleEndian 1 @ header_bytes LittleEndian 7 256 0 1 10 @ [1, 2, 3]) =
   Inr [([PInt 7, PInt 256, PInt 0, PInt 1, PInt 10], [1, 2, 3], None)]"
proof -
  have v: "list_all valid_entry []"
    by simp
  have l: "length (envelope_with_count LittleEndian 1) = 104"
    by simp
  have c: "result_count LittleEndian (envelope_with_count LittleEndian 1) =
      int (length ([] :: entry list) + Suc 0)"
    by (simp add: count_envelope is_u32_def)
  from decode_response_truncated [OF v l _ _ _ _ _ _ c, of 7 256 0 1 10 "[1, 2, 3]" None]
  show ?thesis
    by (simp add: is_u64_def is_u32_def fits_def typed_def)
qed

theorem truncated_payload_witness:
  "list_all valid_entry [entry_a] \<and>
   int (length [1 :: byte, 2, 3]) < 10 \<and>
   result_count LittleEndian (envelope_with_count LittleEndian 3) = int (length [entry_a] + Suc 1) \<and>
   decode_response LittleEndian None
     (envelope_with_count LittleEndian 3 @ wire LittleEndian [entry_a] @
      header_bytes LittleEndian 7 256 0 1 10 @ [1, 2, 3]) =
     Inl StructError \<and>
   decode_response LittleEndian None
     (envelope_with_count LittleEndian 2 @ wire LittleEndian [entry_a] @
      header_bytes LittleEndian 7 256 0 1 10 @ [1, 2, 3]) =
     Inr [([PInt 7, PInt 256, PInt 0, PInt 1, PInt 3], [1, 2, 3], None),
          ([PInt 7, PInt 256, PInt 0, PInt 1, PInt 10], [1, 2, 3], None)]"
proof -
  have v: "list_all valid_entry [entry_a]"
    by (simp add: valid_examples)
  have l: "length (envelope_with_count LittleEndian n) = 104" for n
    by simp
  have c3: "result_count LittleEndian (envelope_with_count LittleEndian 3) =
      int (length [entry_a] + Suc 1)"
    by (simp add: count_envelope is_u32_def)
  have c2: "result_count LittleEndian (envelope_with_count LittleEndian 2) =
      int (length [entry_a] + Suc 0)"
    by (simp add: count_envelope is_u32_def)
  from truncated_payload [OF v l _ _ _ _ _ _ c3, of 7 256 0 1 10 "[1, 2, 3]" None]
    truncated_payload [OF v l _ _ _ _ _ _ c2, of 7 256 0 1 10 "[1, 2, 3]" None] v c3
  show ?thesis
    by (simp add: is_u64_def is_u32_def fits_def typed_def items_of_None header_of_def
        entry_a_def)
qed

lemma two_bytes_typed:
  "typed (Some two_bytes) [x, y] = Some [PInt (uint x), PInt (uint y)]"
  by (simp add: typed_def two_bytes_def struct_size_def bytes_int_def)

lemma two_bytes_fits: "fits (Some two_bytes) bs = (2 \<le> length bs)"
  by (auto simp: fits_def two_bytes_def struct_size_def)

theorem decode_exactly_count_counterexample:
  "decode_response LittleEndian (Some two_bytes)
     (envelope_with_count LittleEndian 1 @ wire LittleEndian [entry_b] @ []) =
     Inl StructError \<and>
   decode_response LittleEndian (Some two_bytes)
     (envelope_with_count LittleEndian 1 @ wire LittleEndian [entry_b] @ [1, 2]) =
     Inr [([PInt 9, PInt 257, PInt 4, PInt 84, PInt 0], [], Some [PInt 1, PInt 2])] \<and>
   decode_response LittleEndian (Some two_bytes)
     (envelope_with_count LittleEndian 1 @ wire LittleEndian [entry_b] @ [3, 4]) =
     Inr [([PInt 9, PInt 257, PInt 4, PInt 84, PInt 0], [], Some [PInt 3, PInt 4])]"
proof -
  have v: "list_all valid_entry [entry_b]"
    by (simp add: valid_examples)
  have l: "length (envelope_with_count LittleEndian 1) = 104"
    by simp
  have c: "result_count LittleEndian (envelope_with_count LittleEndian 1) =
      int (length [entry_b])"
    by (simp add: count_envelope is_u32_def)
  have d: "e_data entry_b = []"
    by (simp add: entry_b_def)
  have h: "header_of entry_b = [PInt 9, PInt 257, PInt 4, PInt 84, PInt 0]"
    by (simp add: header_of_def entry_b_def)
  note r = decode_response_entries [OF v l c, where st = "Some two_bytes"]
  from r [where trailing = "[]"] r [where trailing = "[1, 2]"] r [where trailing = "[3, 4]"]
  show ?thesis
    by (simp add: d h two_bytes_fits two_bytes_typed)
qed

theorem zero_length_payload_counterexample:
  "decode_response LittleEndian (Some two_bytes)
     (envelope_with_count LittleEndian 2 @ wire LittleEndian [entry_a, entry_b] @ []) =
   Inl StructError"
proof -
  have v: "list_all valid_entry [entry_a, entry_b]"
    by (simp add: valid_examples)
  have l: "length (envelope_with_count LittleEndian 2) = 104"
    by simp
  have c: "result_count LittleEndian (envelope_with_count LittleEndian 2) =
      int (length [entry_a, entry_b])"
    by (simp add: count_envelope is_u32_def)
  have d: "e_data entry_b = []"
    by (simp add: entry_b_def)
  from decode_response_entries [OF v l c, where st = "Some two_bytes" and trailing = "[]"]
  show ?thesis
    by (simp add: d two_bytes_fits)
qed

section \<open>The properties of encoding on example calls\<close>

lemma example_pairs:
  "unpack_pair (arg_objid example_args) = Inr (256, 300)"
  "unpack_pair (arg_key_type example_args) = Inr (84, 84)"
  "unpack_pair (arg_offset example_args) = Inr (0, 2 ^ 64 - 1)"
  "unpack_pair (arg_transid example_args) = Inr (0, 2 ^ 64 - 1)"
  "tree example_args = 5" "arg_number example_args = 2"
  "arg_buf example_args = sized_array 104"
  by (simp_all add: example_args_def arg_objid_def arg_key_type_def arg_offset_def
      arg_transid_def arg_number_def arg_buf_def ULLONG_MAX_def)

lemma reversed_pairs:
  "unpack_pair (arg_objid reversed_args) = Inr (5, 3)"
  "unpack_pair (arg_key_type reversed_args) = Inr (0, 2 ^ 32 - 1)"
  "unpack_pair (arg_offset reversed_args) = Inr (0, 2 ^ 64 - 1)"
  "unpack_pair (arg_transid reversed_args) = Inr (0, 2 ^ 64 - 1)"
  "tree reversed_args = 5" "arg_number reversed_args = 2 ^ 32 - 1"
  "arg_buf reversed_args = sized_array 4096"
  by (simp_all add: reversed_args_def default_args_def arg_objid_def arg_key_type_def
      arg_offset_def arg_transid_def arg_number_def arg_buf_def ULLONG_MAX_def ULONG_MAX_def)

lemma small_values:
  "is_u64 0" "is_u64 3" "is_u64 5" "is_u64 256" "is_u64 300" "is_u64 (2 ^ 64 - 1)"
  "is_u32 0" "is_u32 2" "is_u32 84" "is_u32 (2 ^ 32 - 1)"
  by (simp_all add: is_u64_def is_u32_def)

theorem key_roundtrip_witness:
  "is_u64 (tree example_args) \<and> 104 \<le> length (arg_buf example_args) \<and>
   (\<exists>b. encode_request BigEndian example_args = Inr b \<and>
      unpack_from (ioctl_search_key BigEndian) b 0 =
        Inr [PInt 5, PInt 256, PInt 300, PInt 0, PInt (2 ^ 64 - 1), PInt 0, PInt (2 ^ 64 - 1),
             PInt 84, PInt 84, PInt 2])"
proof -
  have t: "is_u64 (tree example_args)" and n: "is_u32 (arg_number example_args)"
    and l: "104 \<le> length (arg_buf example_args)"
    by (simp_all add: example_pairs small_values sized_array_def)
  from key_roundtrip [OF example_pairs(1-4) t small_values(4,5,1,6,1,6,9,9) n l,
      where native = BigEndian] t l
  show ?thesis
    by (simp add: example_pairs)
qed

theorem scalar_is_pair_witness:
  "encode_request LittleEndian (example_args\<lparr>objid := Some (Scalar 256)\<rparr>) =
     encode_request LittleEndian (example_args\<lparr>objid := Some (Seq [256, 256])\<rparr>) \<and>
   search LittleEndian no_match_kernel () (example_args\<lparr>key_type := Some (Scalar 84)\<rparr>) =
     search LittleEndian no_match_kernel () (example_args\<lparr>key_type := Some (Seq [84, 84])\<rparr>)"
  using scalar_is_pair [where native = LittleEndian and a = example_args and v = 256 and
      k = no_match_kernel and fd = "()"]
    scalar_is_pair [where native = LittleEndian and a = example_args and v = 84 and
      k = no_match_kernel and fd = "()"]
  by simp

theorem key_layout_witness:
  "fst (search LittleEndian no_match_kernel () example_args) =
     [(IOC_TREE_SEARCH,
       [5, 0, 0, 0, 0, 0, 0, 0] @
       [0, 1, 0, 0, 0, 0, 0, 0] @ [44, 1, 0, 0, 0, 0, 0, 0] @
       [0, 0, 0, 0, 0, 0, 0, 0] @ [255, 255, 255, 255, 255, 255, 255, 255] @
       [0, 0, 0, 0, 0, 0, 0, 0] @ [255, 255, 255, 255, 255, 255, 255, 255] @
       [84, 0, 0, 0] @ [84, 0, 0, 0] @
       [2, 0, 0, 0] @
       replicate 4 0 @ replicate 32 0)]"
proof -
  have t: "is_u64 (tree example_args)" and n: "is_u32 (arg_number example_args)"
    and l: "104 \<le> length (arg_buf example_args)"
    by (simp_all add: example_pairs small_values sized_array_def)
  have b: "int_bytes LittleEndian 8 5 = [5, 0, 0, 0, 0, 0, 0, 0]"
    "int_bytes LittleEndian 8 256 = [0, 1, 0, 0, 0, 0, 0, 0]"
    "int_bytes LittleEndian 8 300 = [44, 1, 0, 0, 0, 0, 0, 0]"
    "int_bytes LittleEndian 8 0 = [0, 0, 0, 0, 0, 0, 0, 0]"
    "int_bytes LittleEndian 8 (2 ^ 64 - 1) = [255, 255, 255, 255, 255, 255, 255, 255]"
    "int_bytes LittleEndian 4 84 = [84, 0, 0, 0]"
    "int_bytes LittleEndian 4 2 = [2, 0, 0, 0]"
    by (simp_all add: int_bytes_def le_bytes_numeral)
  from key_layout [OF example_pairs(1-4) t small_values(4,5,1,6,1,6,9,9) n l,
      where native = LittleEndian and k = no_match_kernel and fd = "()"]
  show ?thesis
    by (simp only: example_pairs b) (simp add: sized_array_def)
qed

theorem omitted_arguments_default_witness:
  "search LittleEndian no_match_kernel () (example_args\<lparr>offset := None\<rparr>) =
     search LittleEndian no_match_kernel () (example_args\<lparr>offset := Some (Seq [0, 2 ^ 64 - 1])\<rparr>) \<and>
   is_u64 (tree default_args) \<and> 104 \<le> length (arg_buf default_args) \<and>
   (\<exists>b. encode_request LittleEndian default_args = Inr b \<and>
      unpack_from (ioctl_search_key LittleEndian) b 0 =
        Inr [PInt 5, PInt 0, PInt (2 ^ 64 - 1), PInt 0, PInt (2 ^ 64 - 1), PInt 0,
             PInt (2 ^ 64 - 1), PInt 0, PInt (2 ^ 32 - 1), PInt (2 ^ 32 - 1)])"
proof -
  have d: "objid default_args = None" "key_type default_args = None"
    "offset default_args = None" "transid default_args = None" "number default_args = None"
    "tree default_args = 5" "arg_buf default_args = sized_array 4096"
    by (simp_all add: default_args_def arg_buf_def)
  have v: "is_u64 (tree default_args)" "104 \<le> length (arg_buf default_args)"
    by (simp_all add: d small_values sized_array_def)
  note t = omitted_arguments_default [where native = LittleEndian and k = no_match_kernel and
      fd = "()"]
  from t [where a = example_args] t [where a = default_args] d(1-5) v
  show ?thesis
    by (simp add: d(6))
qed

theorem range_passed_unchecked_counterexample:
  "search LittleEndian no_match_kernel () reversed_args =
     ([(IOC_TREE_SEARCH,
        search_key_bytes LittleEndian 5 5 3 0 (2 ^ 64 - 1) 0 (2 ^ 64 - 1) 0 (2 ^ 32 - 1)
          (2 ^ 32 - 1) @
        replicate 3992 0)],
      Inr [])"
  using encode_reversed [of LittleEndian] by (rule search_no_match)

theorem range_passed_unchecked_witness:
  "unpack_pair (arg_objid reversed_args) = Inr (5, 3) \<and>
   (\<exists>b. fst (search LittleEndian no_match_kernel () reversed_args) = [(IOC_TREE_SEARCH, b)] \<and>
      unpack_from (ioctl_search_key LittleEndian) b 0 =
        Inr [PInt 5, PInt 5, PInt 3, PInt 0, PInt (2 ^ 64 - 1), PInt 0, PInt (2 ^ 64 - 1),
             PInt 0, PInt (2 ^ 32 - 1), PInt (2 ^ 32 - 1)]) \<and>
   search LittleEndian no_match_kernel () (default_args\<lparr>objid := Some (Seq [1, 2, 3])\<rparr>) =
     ([], Inl ValueError) \<and>
   search LittleEndian no_match_kernel () (default_args\<lparr>offset := Some (Scalar (2 ^ 64))\<rparr>) =
     ([], Inl StructError)"
proof -
  have t: "is_u64 (tree reversed_args)" and n: "is_u32 (arg_number reversed_args)"
    and l: "104 \<le> length (arg_buf reversed_args)"
    by (simp_all add: reversed_pairs is_u64_def is_u32_def sized_array_def)
  have e1: "encode_request LittleEndian (default_args\<lparr>objid := Some (Seq [1, 2, 3])\<rparr>) =
      Inl ValueError"
    by (simp add: encode_request_def arg_objid_def)
  have e2: "encode_request LittleEndian (default_args\<lparr>offset := Some (Scalar (2 ^ 64))\<rparr>) =
      Inl StructError"
    by (simp add: encode_request_def default_args_def arg_objid_def arg_key_type_def
        arg_offset_def arg_transid_def arg_number_def arg_buf_def ULLONG_MAX_def ULONG_MAX_def
        pack_into_def key_codes sized_array_def)
  note r = range_passed_unchecked [OF reversed_pairs(1-4) t small_values(3,2,1,6,1,6,7,10) n l,
      where native = LittleEndian and k = no_match_kernel and fd = "()"]
  from r [where a' = "default_args\<lparr>objid := Some (Seq [1, 2, 3])\<rparr>" and e = ValueError]
    r [where a' = "default_args\<lparr>offset := Some (Scalar (2 ^ 64))\<rparr>" and e = StructError]
    e1 e2
  show ?thesis
    by (simp add: reversed_pairs)
qed

end
